theory Spec2Isabelle
  imports Main "HOL-Library.Multiset" "HOL-Library.List_Lexorder" "HOL-Library.Char_ord"
begin

section \<open>Shared pointers, elements and comparers\<close>

text \<open>
  The queue of \<^verbatim>\<open>priorityqueue.hh\<close> stores \<^verbatim>\<open>std::shared_ptr<K>\<close> and
  \<^verbatim>\<open>std::shared_ptr<V>\<close>. A pointer is modelled by the address of the object it
  owns together with the object itself; the pointee is never written after
  \<^verbatim>\<open>make_shared\<close>, so carrying it inside the pointer loses nothing. The built-in
  comparison of two shared pointers (\<^verbatim>\<open>==\<close>, \<^verbatim>\<open><\<close>) looks at the addresses only;
  the three comparer classes of the source dereference.
\<close>

datatype 'a shared_ptr = Ptr (address: nat) (pointee: 'a)

type_synonym ('k, 'v) element = "'k shared_ptr \<times> 'v shared_ptr"

definition KeyComparer :: "'k::linorder shared_ptr \<Rightarrow> 'k shared_ptr \<Rightarrow> bool" where
  "KeyComparer lhs rhs = (pointee lhs < pointee rhs)"

definition ValueComparer :: "'v::linorder shared_ptr \<Rightarrow> 'v shared_ptr \<Rightarrow> bool" where
  "ValueComparer lhs rhs = (pointee lhs < pointee rhs)"

definition ValueKeyComparer ::
  "('k::linorder, 'v::linorder) element \<Rightarrow> ('k, 'v) element \<Rightarrow> bool" where
  "ValueKeyComparer lhs rhs =
     (if pointee (snd lhs) < pointee (snd rhs) then True
      else if pointee (snd rhs) < pointee (snd lhs) then False
      else pointee (fst lhs) < pointee (fst rhs))"

text \<open>
  \<^verbatim>\<open>std::multiset<element>\<close> has no comparer argument: it orders by
  \<^verbatim>\<open>std::less<std::pair<key_ptr, value_ptr>>\<close>, the lexicographic order of the two
  addresses. \<^verbatim>\<open>operator==\<close> of two elements is equality of both addresses.
\<close>

definition element_less :: "('k, 'v) element \<Rightarrow> ('k, 'v) element \<Rightarrow> bool" where
  "element_less lhs rhs =
     (address (fst lhs) < address (fst rhs) \<or>
      (\<not> address (fst rhs) < address (fst lhs) \<and> address (snd lhs) < address (snd rhs)))"

definition element_eq :: "('k, 'v) element \<Rightarrow> ('k, 'v) element \<Rightarrow> bool" where
  "element_eq lhs rhs =
     (address (fst lhs) = address (fst rhs) \<and> address (snd lhs) = address (snd rhs))"

section \<open>The standard containers, as ordered lists\<close>

text \<open>
  A \<^verbatim>\<open>std::multiset\<close> is the list of its elements in iteration order, a
  \<^verbatim>\<open>std::map\<close> the list of its (key, mapped value) entries in iteration order. An
  iterator is the position in that list. Two keys are equivalent when neither is less
  than the other.
\<close>

definition equivalent :: "('a \<Rightarrow> 'a \<Rightarrow> bool) \<Rightarrow> 'a \<Rightarrow> 'a \<Rightarrow> bool" where
  "equivalent lt a b = (\<not> lt a b \<and> \<not> lt b a)"

definition insert_at :: "nat \<Rightarrow> 'a \<Rightarrow> 'a list \<Rightarrow> 'a list" where
  "insert_at i x xs = take i xs @ x # drop i xs"

definition erase_at :: "nat \<Rightarrow> 'a list \<Rightarrow> 'a list" where
  "erase_at i xs = take i xs @ drop (Suc i) xs"

fun find_index :: "('a \<Rightarrow> bool) \<Rightarrow> 'a list \<Rightarrow> nat option" where
  "find_index P [] = None"
| "find_index P (y # ys) = (if P y then Some 0 else map_option Suc (find_index P ys))"

definition upper_bound :: "('a \<Rightarrow> 'a \<Rightarrow> bool) \<Rightarrow> 'a \<Rightarrow> 'a list \<Rightarrow> nat" where
  "upper_bound lt x xs = length (takeWhile (\<lambda>y. \<not> lt x y) xs)"

text \<open>
  \<^verbatim>\<open>multiset::insert(x)\<close> puts \<open>x\<close> at the upper bound of the elements equivalent
  to it and returns the iterator to it; \<^verbatim>\<open>find(x)\<close> gives an element equivalent to
  \<open>x\<close>; \<^verbatim>\<open>erase(x)\<close> with a value removes every element equivalent to \<open>x\<close>.
\<close>

definition multiset_insert :: "('a \<Rightarrow> 'a \<Rightarrow> bool) \<Rightarrow> 'a \<Rightarrow> 'a list \<Rightarrow> nat \<times> 'a list" where
  "multiset_insert lt x xs = (let i = upper_bound lt x xs in (i, insert_at i x xs))"

definition multiset_find :: "('a \<Rightarrow> 'a \<Rightarrow> bool) \<Rightarrow> 'a \<Rightarrow> 'a list \<Rightarrow> nat option" where
  "multiset_find lt x xs = find_index (equivalent lt x) xs"

definition multiset_erase_key :: "('a \<Rightarrow> 'a \<Rightarrow> bool) \<Rightarrow> 'a \<Rightarrow> 'a list \<Rightarrow> 'a list" where
  "multiset_erase_key lt x xs = filter (\<lambda>y. \<not> equivalent lt x y) xs"

definition lower_bound :: "('a \<Rightarrow> 'a \<Rightarrow> bool) \<Rightarrow> 'a \<Rightarrow> ('a \<times> 'b) list \<Rightarrow> nat" where
  "lower_bound lt k m = length (takeWhile (\<lambda>e. lt (fst e) k) m)"

definition map_find :: "('a \<Rightarrow> 'a \<Rightarrow> bool) \<Rightarrow> 'a \<Rightarrow> ('a \<times> 'b) list \<Rightarrow> nat option" where
  "map_find lt k m = find_index (\<lambda>e. equivalent lt k (fst e)) m"

text \<open>
  \<^verbatim>\<open>map::insert\<close> of an entry and \<^verbatim>\<open>map::try_emplace\<close> of a key (the mapped value
  default-constructed, here the empty container) return the iterator to the entry with
  that key and whether it was inserted now; an entry that is already there is left as it
  is.
\<close>

definition map_insert ::
  "('a \<Rightarrow> 'a \<Rightarrow> bool) \<Rightarrow> 'a \<times> 'b \<Rightarrow> ('a \<times> 'b) list \<Rightarrow> nat \<times> bool \<times> ('a \<times> 'b) list" where
  "map_insert lt e m =
     (case map_find lt (fst e) m of
        Some i \<Rightarrow> (i, False, m)
      | None \<Rightarrow> (let i = lower_bound lt (fst e) m in (i, True, insert_at i e m)))"

definition try_emplace ::
  "('a \<Rightarrow> 'a \<Rightarrow> bool) \<Rightarrow> 'a \<Rightarrow> ('a \<times> 'b list) list \<Rightarrow> nat \<times> bool \<times> ('a \<times> 'b list) list" where
  "try_emplace lt k m = map_insert lt (k, []) m"

text \<open>\<open>at_second it f m\<close> is a change \<open>f\<close> made to \<^verbatim>\<open>it->second\<close>.\<close>

definition at_second :: "nat \<Rightarrow> ('b \<Rightarrow> 'b) \<Rightarrow> ('a \<times> 'b) list \<Rightarrow> ('a \<times> 'b) list" where
  "at_second it f m = m[it := (fst (m ! it), f (snd (m ! it)))]"

section \<open>The queue\<close>

type_synonym ('k, 'v) value_map = "('v shared_ptr \<times> ('k, 'v) element list) list"

type_synonym ('k, 'v) key_map = "('k shared_ptr \<times> ('k, 'v) value_map) list"

record ('k, 'v) PriorityQueue =
  sorted_by_value :: "('k, 'v) element list"
  sorted_by_key :: "('k, 'v) key_map"

definition PriorityQueue_default :: "('k, 'v) PriorityQueue" where
  "PriorityQueue_default = \<lparr>sorted_by_value = [], sorted_by_key = []\<rparr>"

datatype exn =
  PriorityQueueEmptyException
| PriorityQueueNotFoundException
| PriorityQueueInsertionException
| bad_alloc

text \<open>
  A call returns, or throws and leaves a state behind, or stops at a failed
  \<^verbatim>\<open>assert\<close>, or does something the language leaves undefined.
\<close>

datatype 's outcome = Returned 's | Threw exn 's | Assertion_failed | Undefined_behaviour

text \<open>
  The objects live in one address space: \<open>next_addr\<close> is the next address
  \<^verbatim>\<open>make_shared\<close> hands out, \<open>queues\<close> gives the queue object at each reference.
  \<^verbatim>\<open>this == &queue\<close> is equality of references.
\<close>

record ('k, 'v) world =
  next_addr :: nat
  queues :: "nat \<Rightarrow> ('k, 'v) PriorityQueue"

definition make_shared :: "'a \<Rightarrow> ('k, 'v) world \<Rightarrow> 'a shared_ptr \<times> ('k, 'v) world" where
  "make_shared x w = (Ptr (next_addr w) x, w\<lparr>next_addr := Suc (next_addr w)\<rparr>)"

definition set_queue :: "nat \<Rightarrow> ('k, 'v) PriorityQueue \<Rightarrow> ('k, 'v) world \<Rightarrow> ('k, 'v) world" where
  "set_queue this q w = w\<lparr>queues := (queues w)(this := q)\<rparr>"

subsection \<open>Queries\<close>

definition empty_pq :: "('k, 'v) PriorityQueue \<Rightarrow> bool" where
  "empty_pq q = (sorted_by_value q = [])"

definition size_pq :: "('k, 'v) PriorityQueue \<Rightarrow> nat" where
  "size_pq q = length (sorted_by_value q)"

definition minValue :: "('k, 'v) PriorityQueue \<Rightarrow> exn + 'v" where
  "minValue q =
     (if empty_pq q then Inl PriorityQueueEmptyException
      else Inr (pointee (snd (hd (sorted_by_value q)))))"

definition maxValue :: "('k, 'v) PriorityQueue \<Rightarrow> exn + 'v" where
  "maxValue q =
     (if empty_pq q then Inl PriorityQueueEmptyException
      else Inr (pointee (snd (last (sorted_by_value q)))))"

definition minKey :: "('k, 'v) PriorityQueue \<Rightarrow> exn + 'k" where
  "minKey q =
     (if empty_pq q then Inl PriorityQueueEmptyException
      else Inr (pointee (fst (hd (sorted_by_value q)))))"

definition maxKey :: "('k, 'v) PriorityQueue \<Rightarrow> exn + 'k" where
  "maxKey q =
     (if empty_pq q then Inl PriorityQueueEmptyException
      else Inr (pointee (fst (last (sorted_by_value q)))))"

subsection \<open>insert\<close>

text \<open>
  A step of \<^verbatim>\<open>insert\<close> that can fail: the two \<^verbatim>\<open>make_shared\<close> calls before the
  \<^verbatim>\<open>try\<close> block, and the four container insertions inside it (a comparison that
  throws, or the allocation of a node). A container call that throws leaves its
  container as it was.
\<close>

datatype insert_fault =
  Alloc_key | Alloc_value | Insert_by_value | Emplace_key | Emplace_value | Insert_element

text \<open>The \<^verbatim>\<open>catch (...)\<close> block of \<^verbatim>\<open>insert\<close>, with the flags and iterators it reads.\<close>

definition insert_catch ::
  "bool \<Rightarrow> bool \<Rightarrow> bool \<Rightarrow> bool \<Rightarrow> nat \<Rightarrow> nat \<Rightarrow> nat \<Rightarrow> nat \<Rightarrow>
   ('k, 'v) PriorityQueue \<Rightarrow> ('k, 'v) PriorityQueue" where
  "insert_catch al1 al2 al3 al4 it1 it2 it3 it4 q =
     (let m4 = (if al4 then at_second it2 (at_second it3 (erase_at it4)) (sorted_by_key q)
                else sorted_by_key q);
          m3 = (if al3 then at_second it2 (erase_at it3) m4 else m4);
          m2 = (if al2 then erase_at it2 m3 else m3);
          s1 = (if al1 then erase_at it1 (sorted_by_value q) else sorted_by_value q)
      in \<lparr>sorted_by_value = s1, sorted_by_key = m2\<rparr>)"

text \<open>
  The \<^verbatim>\<open>try\<close> block. \<open>Inl\<close> is the queue left by the \<^verbatim>\<open>catch\<close> block, \<open>Inr\<close> the
  queue after an insertion that went through. Line 161 of the source reads
  \<^verbatim>\<open>it3->insert(pair_by_value)\<close>; \<open>it3\<close> points to an entry of the value map, and the
  multiset is its \<^verbatim>\<open>second\<close>, as line 164 writes it.
\<close>

definition insert_try ::
  "insert_fault option \<Rightarrow> 'k::linorder shared_ptr \<Rightarrow> 'v::linorder shared_ptr \<Rightarrow>
   ('k, 'v) PriorityQueue \<Rightarrow> ('k, 'v) PriorityQueue + ('k, 'v) PriorityQueue" where
  "insert_try f k v q =
     (let pair_by_value = (k, v) in
      if f = Some Insert_by_value then Inl (insert_catch False False False False 0 0 0 0 q)
      else
        let (it1, s1) = multiset_insert ValueKeyComparer pair_by_value (sorted_by_value q);
            q1 = q\<lparr>sorted_by_value := s1\<rparr>
        in
        if f = Some Emplace_key then Inl (insert_catch True False False False it1 0 0 0 q1)
        else
          let (it2, al2, m2) = try_emplace KeyComparer k (sorted_by_key q1);
              q2 = q1\<lparr>sorted_by_key := m2\<rparr>
          in
          if f = Some Emplace_value then Inl (insert_catch True al2 False False it1 it2 0 0 q2)
          else
            let (it3, al3, vm) = try_emplace ValueComparer v (snd (m2 ! it2));
                q3 = q2\<lparr>sorted_by_key := at_second it2 (\<lambda>_. vm) m2\<rparr>
            in
            if f = Some Insert_element
            then Inl (insert_catch True al2 al3 False it1 it2 it3 0 q3)
            else
              let (it4, es) = multiset_insert element_less pair_by_value (snd (vm ! it3))
              in Inr (q3\<lparr>sorted_by_key :=
                          at_second it2 (at_second it3 (\<lambda>_. es)) (sorted_by_key q3)\<rparr>))"

definition insert_pq ::
  "insert_fault option \<Rightarrow> nat \<Rightarrow> 'k::linorder \<Rightarrow> 'v::linorder \<Rightarrow> ('k, 'v) world \<Rightarrow>
   ('k, 'v) world outcome" where
  "insert_pq f this key val w =
     (if f = Some Alloc_key then Threw bad_alloc w
      else
        let (k, w1) = make_shared key w in
        if f = Some Alloc_value then Threw bad_alloc w1
        else
          let (v, w2) = make_shared val w1 in
          case insert_try f k v (queues w2 this) of
            Inr q' \<Rightarrow> Returned (set_queue this q' w2)
          | Inl q' \<Rightarrow> Threw PriorityQueueInsertionException (set_queue this q' w2))"

subsection \<open>deleteMin and deleteMax\<close>

text \<open>
  Both methods hold the same block (lines 208 to 221 and 228 to 241): find the key
  group, the value group in it and the element in that, each under an \<^verbatim>\<open>assert\<close>;
  erase the element, then the value group and the key group where they became empty.
  \<open>None\<close> is a failed assertion. The comparisons of the three \<^verbatim>\<open>find\<close> calls work
  on keys and values that are already stored and are taken not to throw; nothing after
  them can.
\<close>

definition erase_from_key_index ::
  "('k::linorder, 'v::linorder) element \<Rightarrow> ('k, 'v) key_map \<Rightarrow> ('k, 'v) key_map option" where
  "erase_from_key_index e m =
     (case map_find KeyComparer (fst e) m of
        None \<Rightarrow> None
      | Some kit \<Rightarrow>
          (case map_find ValueComparer (snd e) (snd (m ! kit)) of
             None \<Rightarrow> None
           | Some vit \<Rightarrow>
               (case multiset_find element_less e (snd (snd (m ! kit) ! vit)) of
                  None \<Rightarrow> None
                | Some ait \<Rightarrow>
                    let m1 = at_second kit (at_second vit (erase_at ait)) m;
                        m2 = (if snd (snd (m1 ! kit) ! vit) = []
                              then at_second kit (erase_at vit) m1 else m1);
                        m3 = (if snd (m2 ! kit) = [] then erase_at kit m2 else m2)
                    in Some m3)))"

definition deleteMin ::
  "('k::linorder, 'v::linorder) PriorityQueue \<Rightarrow> ('k, 'v) PriorityQueue outcome" where
  "deleteMin q =
     (if empty_pq q then Returned q
      else
        let e = hd (sorted_by_value q) in
        case erase_from_key_index e (sorted_by_key q) of
          None \<Rightarrow> Assertion_failed
        | Some m \<Rightarrow>
            Returned \<lparr>sorted_by_value = erase_at 0 (sorted_by_value q), sorted_by_key = m\<rparr>)"

definition deleteMax ::
  "('k::linorder, 'v::linorder) PriorityQueue \<Rightarrow> ('k, 'v) PriorityQueue outcome" where
  "deleteMax q =
     (if empty_pq q then Returned q
      else
        let e = last (sorted_by_value q) in
        case erase_from_key_index e (sorted_by_key q) of
          None \<Rightarrow> Assertion_failed
        | Some m \<Rightarrow>
            Returned \<lparr>sorted_by_value =
                        erase_at (length (sorted_by_value q) - 1) (sorted_by_value q),
                      sorted_by_key = m\<rparr>)"

subsection \<open>changeValue\<close>




subsection \<open>merge\<close>

text \<open>
  The loop of \<^verbatim>\<open>merge\<close> works on \<^verbatim>\<open>sorted_by_value\<close> and \<^verbatim>\<open>sorted_by_key\<close> of
  \<^verbatim>\<open>*this\<close> and on the two local rollback containers; the state of the loop is these
  four, in this order. A step that can fail is one of the container calls of the loop
  body; the last line, \<^verbatim>\<open>sorted_by_key_rollback[k][v].insert(new_elem)\<close>, can fail
  before the key entry is made, after it, or after the value entry is made.

  \<^verbatim>\<open>merge\<close> too is marked as not yet ported to the two-level key index. Lines 316
  and 319 call \<^verbatim>\<open>insert\<close> with a key and a mapped value as two arguments; they are
  read as the insertion of that entry. Line 322 then finds both entries.
\<close>

datatype merge_fault =
  Merge_insert_by_value
| Merge_rollback_by_value
| Merge_insert_key
| Merge_insert_value
| Merge_insert_element
| Merge_rollback_key
| Merge_rollback_value
| Merge_rollback_element

type_synonym ('k, 'v) merge_state =
  "('k, 'v) element list \<times> ('k, 'v) key_map \<times> ('k, 'v) element list \<times> ('k, 'v) key_map"

text \<open>\<^verbatim>\<open>m[k][v].insert(e)\<close>: \<^verbatim>\<open>operator[]\<close> makes the entry where there is none.\<close>

definition subscript_insert ::
  "('k::linorder, 'v::linorder) element \<Rightarrow> ('k, 'v) key_map \<Rightarrow> ('k, 'v) key_map" where
  "subscript_insert e m =
     (let (i, _, m1) = try_emplace KeyComparer (fst e) m;
          (j, _, vm) = try_emplace ValueComparer (snd e) (snd (m1 ! i));
          es = snd (multiset_insert element_less e (snd (vm ! j)))
      in at_second i (\<lambda>_. at_second j (\<lambda>_. es) vm) m1)"

definition merge_transfer ::
  "merge_fault option \<Rightarrow> ('k::linorder, 'v::linorder) element \<Rightarrow> ('k, 'v) merge_state \<Rightarrow>
   ('k, 'v) merge_state + ('k, 'v) merge_state" where
  "merge_transfer f e s =
     (case s of (sbv, sbk, rbv, rbk) \<Rightarrow>
      let k = fst e; v = snd e; by_value = (k, v) in
      if f = Some Merge_insert_by_value then Inl (sbv, sbk, rbv, rbk)
      else
        let sbv1 = snd (multiset_insert ValueKeyComparer by_value sbv) in
        if f = Some Merge_rollback_by_value then Inl (sbv1, sbk, rbv, rbk)
        else
          let rbv1 = snd (multiset_insert ValueKeyComparer by_value rbv) in
          if f = Some Merge_insert_key then Inl (sbv1, sbk, rbv1, rbk)
          else
            let sbk1 = snd (snd (map_insert KeyComparer (k, []) sbk)) in
            if f = Some Merge_insert_value then Inl (sbv1, sbk1, rbv1, rbk)
            else
              let (i, _, sbk2) = try_emplace KeyComparer k sbk1;
                  sbk3 = at_second i (\<lambda>vm. snd (snd (map_insert ValueComparer (v, []) vm))) sbk2
              in
              if f = Some Merge_insert_element then Inl (sbv1, sbk3, rbv1, rbk)
              else
                let new_elem = (k, v);
                    sbk4 = subscript_insert new_elem sbk3
                in
                if f = Some Merge_rollback_key then Inl (sbv1, sbk4, rbv1, rbk)
                else
                  let (ri, _, rbk1) = try_emplace KeyComparer k rbk in
                  if f = Some Merge_rollback_value then Inl (sbv1, sbk4, rbv1, rbk1)
                  else
                    let rbk2 = at_second ri
                                 (\<lambda>vm. snd (snd (try_emplace ValueComparer v vm))) rbk1
                    in
                    if f = Some Merge_rollback_element then Inl (sbv1, sbk4, rbv1, rbk2)
                    else Inr (sbv1, sbk4, rbv1, subscript_insert new_elem rbk))"

text \<open>
  The range-for over \<^verbatim>\<open>queue.sorted_by_value\<close>. The fault \<open>Some (j, step)\<close> makes
  \<open>step\<close> fail while the element at position \<open>j\<close> is transferred.
\<close>

fun merge_loop ::
  "(nat \<times> merge_fault) option \<Rightarrow> nat \<Rightarrow> ('k::linorder, 'v::linorder) element list \<Rightarrow>
   ('k, 'v) merge_state \<Rightarrow> ('k, 'v) merge_state + ('k, 'v) merge_state" where
  "merge_loop f i [] s = Inr s"
| "merge_loop f i (e # es) s =
     (case merge_transfer
             (case f of None \<Rightarrow> None | Some (j, step) \<Rightarrow> if j = i then Some step else None)
             e s of
        Inl s' \<Rightarrow> Inl s'
      | Inr s' \<Rightarrow> merge_loop f (Suc i) es s')"

text \<open>
  The \<^verbatim>\<open>catch (...)\<close> block. Its first loop erases from \<^verbatim>\<open>sorted_by_value\<close>, by value,
  each element of the rollback multiset. The body of its second loop (line 342) hands
  \<^verbatim>\<open>sorted_by_key[elem.first].erase\<close> an iterator of the copy \<^verbatim>\<open>elem\<close>, an iterator
  of another container: whenever the rollback map has an entry, the behaviour is
  undefined. The exception thrown at the end is \<^verbatim>\<open>PriorityQueueEmptyException\<close>.
\<close>

definition merge_catch ::
  "('k::linorder, 'v::linorder) merge_state \<Rightarrow> ('k, 'v) PriorityQueue outcome" where
  "merge_catch s =
     (case s of (sbv, sbk, rbv, rbk) \<Rightarrow>
      let sbv' = fold (multiset_erase_key ValueKeyComparer) rbv sbv in
      if rbk = []
      then Threw PriorityQueueEmptyException \<lparr>sorted_by_value = sbv', sorted_by_key = sbk\<rparr>
      else Undefined_behaviour)"

definition merge ::
  "(nat \<times> merge_fault) option \<Rightarrow> nat \<Rightarrow> nat \<Rightarrow> ('k::linorder, 'v::linorder) world \<Rightarrow>
   ('k, 'v) world outcome" where
  "merge f this other w =
     (if this = other then Returned w
      else
        let a = queues w this; b = queues w other in
        case merge_loop f 0 (sorted_by_value b) (sorted_by_value a, sorted_by_key a, [], []) of
          Inr (sbv, sbk, rbv, rbk) \<Rightarrow>
            Returned
              (set_queue other \<lparr>sorted_by_value = [], sorted_by_key = []\<rparr>
                 (set_queue this \<lparr>sorted_by_value = sbv, sorted_by_key = sbk\<rparr> w))
        | Inl s \<Rightarrow>
            (case merge_catch s of
               Threw x q \<Rightarrow> Threw x (set_queue this q w)
             | Returned q \<Rightarrow> Returned (set_queue this q w)
             | Assertion_failed \<Rightarrow> Assertion_failed
             | Undefined_behaviour \<Rightarrow> Undefined_behaviour))"

subsection \<open>Comparison of queues\<close>

text \<open>
  \<^verbatim>\<open>operator==\<close> and \<^verbatim>\<open>operator<\<close> of two queues are those of their
  \<^verbatim>\<open>sorted_by_value\<close> multisets: \<^verbatim>\<open>std::equal\<close> on sequences of the same length and
  \<^verbatim>\<open>std::lexicographical_compare\<close>, both with the built-in comparison of elements,
  that is of pairs of shared pointers.
\<close>

fun lexicographical_compare ::
  "('a \<Rightarrow> 'a \<Rightarrow> bool) \<Rightarrow> 'a list \<Rightarrow> 'a list \<Rightarrow> bool" where
  "lexicographical_compare lt [] [] = False"
| "lexicographical_compare lt [] (y # ys) = True"
| "lexicographical_compare lt (x # xs) [] = False"
| "lexicographical_compare lt (x # xs) (y # ys) =
     (if lt x y then True else if lt y x then False else lexicographical_compare lt xs ys)"

definition operator_eq :: "('k, 'v) PriorityQueue \<Rightarrow> ('k, 'v) PriorityQueue \<Rightarrow> bool" where
  "operator_eq lhs rhs = list_all2 element_eq (sorted_by_value lhs) (sorted_by_value rhs)"

definition operator_ne :: "('k, 'v) PriorityQueue \<Rightarrow> ('k, 'v) PriorityQueue \<Rightarrow> bool" where
  "operator_ne lhs rhs = (\<not> list_all2 element_eq (sorted_by_value lhs) (sorted_by_value rhs))"

definition operator_lt :: "('k, 'v) PriorityQueue \<Rightarrow> ('k, 'v) PriorityQueue \<Rightarrow> bool" where
  "operator_lt lhs rhs =
     lexicographical_compare element_less (sorted_by_value lhs) (sorted_by_value rhs)"

definition operator_gt :: "('k, 'v) PriorityQueue \<Rightarrow> ('k, 'v) PriorityQueue \<Rightarrow> bool" where
  "operator_gt lhs rhs = operator_lt rhs lhs"

definition operator_le :: "('k, 'v) PriorityQueue \<Rightarrow> ('k, 'v) PriorityQueue \<Rightarrow> bool" where
  "operator_le lhs rhs = (\<not> operator_gt lhs rhs)"

definition operator_ge :: "('k, 'v) PriorityQueue \<Rightarrow> ('k, 'v) PriorityQueue \<Rightarrow> bool" where
  "operator_ge lhs rhs = (\<not> operator_lt lhs rhs)"

section \<open>Clients and observations\<close>

text \<open>
  What the properties below speak about, beyond the methods themselves: a sequence of
  calls, the world before any call, the stored pairs as a reader of the value index
  sees them, the keys that have a group in the key index, the elements of the key index
  flattened over key groups and value groups,
  and the two draining loops of a client,
  \<^verbatim>\<open>while (!q.empty()) { out.push_back(q.minValue()); q.deleteMin(); }\<close>
  and the same with \<^verbatim>\<open>maxValue\<close> and \<^verbatim>\<open>deleteMax\<close>.
\<close>

definition and_then :: "'s outcome \<Rightarrow> ('s \<Rightarrow> 's outcome) \<Rightarrow> 's outcome" where
  "and_then r g =
     (case r of
        Returned s \<Rightarrow> g s
      | Threw x s \<Rightarrow> Threw x s
      | Assertion_failed \<Rightarrow> Assertion_failed
      | Undefined_behaviour \<Rightarrow> Undefined_behaviour)"

definition initial_world :: "('k, 'v) world" where
  "initial_world = \<lparr>next_addr = 0, queues = (\<lambda>_. PriorityQueue_default)\<rparr>"

fun insert_all ::
  "nat \<Rightarrow> ('k::linorder \<times> 'v::linorder) list \<Rightarrow> ('k, 'v) world \<Rightarrow> ('k, 'v) world outcome" where
  "insert_all this [] w = Returned w"
| "insert_all this (kv # kvs) w =
     and_then (insert_pq None this (fst kv) (snd kv) w) (insert_all this kvs)"

definition key_value_pairs :: "('k, 'v) PriorityQueue \<Rightarrow> ('k \<times> 'v) list" where
  "key_value_pairs q = map (\<lambda>e. (pointee (fst e), pointee (snd e))) (sorted_by_value q)"

definition value_key_sequence :: "('k, 'v) PriorityQueue \<Rightarrow> ('v \<times> 'k) list" where
  "value_key_sequence q = map (\<lambda>e. (pointee (snd e), pointee (fst e))) (sorted_by_value q)"


definition key_index_elements :: "('k, 'v) key_map \<Rightarrow> ('k, 'v) element list" where
  "key_index_elements m = concat (map (\<lambda>g. concat (map snd (snd g))) m)"

function drainMin :: "('k::linorder, 'v::linorder) PriorityQueue \<Rightarrow> 'v list option" where
  "drainMin q =
     (if empty_pq q then Some []
      else
        case minValue q of
          Inl _ \<Rightarrow> None
        | Inr v \<Rightarrow>
            (case deleteMin q of
               Returned q' \<Rightarrow> map_option ((#) v) (drainMin q')
             | _ \<Rightarrow> None))"
  by pat_completeness auto
termination
proof (relation "measure size_pq")
  show "wf (measure size_pq)" by simp
next
  fix q :: "('k::linorder, 'v::linorder) PriorityQueue" and v q'
  assume "\<not> empty_pq q" and "deleteMin q = Returned q'"
  then show "(q', q) \<in> measure size_pq"
    by (auto simp: deleteMin_def empty_pq_def size_pq_def erase_at_def
             split: option.splits)
qed

function drainMax :: "('k::linorder, 'v::linorder) PriorityQueue \<Rightarrow> 'v list option" where
  "drainMax q =
     (if empty_pq q then Some []
      else
        case maxValue q of
          Inl _ \<Rightarrow> None
        | Inr v \<Rightarrow>
            (case deleteMax q of
               Returned q' \<Rightarrow> map_option ((#) v) (drainMax q')
             | _ \<Rightarrow> None))"
  by pat_completeness auto
termination
proof (relation "measure size_pq")
  show "wf (measure size_pq)" by simp
next
  fix q :: "('k::linorder, 'v::linorder) PriorityQueue" and v q'
  assume "\<not> empty_pq q" and "deleteMax q = Returned q'"
  then show "(q', q) \<in> measure size_pq"
    by (auto simp: deleteMax_def empty_pq_def size_pq_def erase_at_def
             split: option.splits)
qed

text \<open>
  The two indices agree: the keys of the key index are pairwise different, no key group
  and no value group is empty, every element sits in the group of its key and its value,
  and the key index, flattened, holds the elements of the value index, each as often.
\<close>

definition value_group_ok :: "'k shared_ptr \<Rightarrow> 'v shared_ptr \<times> ('k, 'v) element list \<Rightarrow> bool" where
  "value_group_ok kp s =
     (snd s \<noteq> [] \<and>
      (\<forall>e \<in> set (snd s). pointee (fst e) = pointee kp \<and> pointee (snd e) = pointee (fst s)))"

definition key_group_ok :: "'k shared_ptr \<times> ('k, 'v) value_map \<Rightarrow> bool" where
  "key_group_ok g =
     (snd g \<noteq> [] \<and> distinct (map (\<lambda>s. pointee (fst s)) (snd g)) \<and>
      (\<forall>s \<in> set (snd g). value_group_ok (fst g) s))"

definition key_index_ok :: "('k, 'v) key_map \<Rightarrow> bool" where
  "key_index_ok m =
     (distinct (map (\<lambda>g. pointee (fst g)) m) \<and> (\<forall>g \<in> set m. key_group_ok g))"

definition consistent :: "('k, 'v) PriorityQueue \<Rightarrow> bool" where
  "consistent q =
     (key_index_ok (sorted_by_key q) \<and>
      mset (key_index_elements (sorted_by_key q)) = mset (sorted_by_value q))"

definition value_ordered :: "('k::linorder, 'v::linorder) PriorityQueue \<Rightarrow> bool" where
  "value_ordered q = sorted_wrt (\<lambda>a b. \<not> ValueKeyComparer b a) (sorted_by_value q)"

text \<open>
  A world to try things in: queue 0 holds (1, "a"), queue 1 holds (1, "a") and (2, "b"),
  as three calls of \<^verbatim>\<open>insert\<close> on the initial world leave them.
\<close>

definition example_world :: "(int, string) world" where
  "example_world =
     set_queue 1
       \<lparr>sorted_by_value = [(Ptr 2 1, Ptr 3 ''a''), (Ptr 4 2, Ptr 5 ''b'')],
        sorted_by_key =
          [(Ptr 2 1, [(Ptr 3 ''a'', [(Ptr 2 1, Ptr 3 ''a'')])]),
           (Ptr 4 2, [(Ptr 5 ''b'', [(Ptr 4 2, Ptr 5 ''b'')])])]\<rparr>
       (set_queue 0
          \<lparr>sorted_by_value = [(Ptr 0 1, Ptr 1 ''a'')],
           sorted_by_key = [(Ptr 0 1, [(Ptr 1 ''a'', [(Ptr 0 1, Ptr 1 ''a'')])])]\<rparr>
          (initial_world\<lparr>next_addr := 6\<rparr>))"

section \<open>Lemmas about the containers\<close>

lemmas container_defs = multiset_insert_def upper_bound_def insert_at_def erase_at_def
  map_insert_def try_emplace_def map_find_def lower_bound_def at_second_def equivalent_def
  multiset_find_def multiset_erase_key_def
  KeyComparer_def ValueComparer_def ValueKeyComparer_def element_less_def element_eq_def

lemmas method_defs = insert_pq_def make_shared_def insert_try_def set_queue_def
  PriorityQueue_default_def deleteMin_def deleteMax_def size_pq_def empty_pq_def
  minValue_def maxValue_def minKey_def maxKey_def erase_from_key_index_def

lemma find_index_Some_split:
  "find_index P xs = Some i \<Longrightarrow>
   \<exists>pre x post. xs = pre @ x # post \<and> i = length pre \<and> P x \<and> (\<forall>y \<in> set pre. \<not> P y)"
proof (induction xs arbitrary: i)
  case Nil
  then show ?case by simp
next
  case (Cons y ys)
  show ?case
  proof (cases "P y")
    case True
    with Cons.prems have "i = 0" by simp
    with True show ?thesis by (intro exI[of _ "[]"] exI[of _ y] exI[of _ ys]) simp
  next
    case False
    with Cons.prems obtain j where j: "find_index P ys = Some j" "i = Suc j" by auto
    from Cons.IH[OF j(1)] obtain pre x post where
      "ys = pre @ x # post" "j = length pre" "P x" "\<forall>y \<in> set pre. \<not> P y" by blast
    with False j(2) show ?thesis
      by (intro exI[of _ "y # pre"] exI[of _ x] exI[of _ post]) simp
  qed
qed

lemma find_index_None_iff: "find_index P xs = None \<longleftrightarrow> (\<forall>x \<in> set xs. \<not> P x)"
  by (induction xs) auto

lemma at_second_split [simp]:
  "at_second (length pre) f (pre @ (a, b) # post) = pre @ (a, f b) # post"
  by (simp add: at_second_def)

lemma erase_at_split [simp]: "erase_at (length pre) (pre @ x # post) = pre @ post"
  by (simp add: erase_at_def)

lemma insert_at_split: "i \<le> length xs \<Longrightarrow> \<exists>pre post. xs = pre @ post \<and> i = length pre \<and> insert_at i x xs = pre @ x # post"
  by (intro exI[of _ "take i xs"] exI[of _ "drop i xs"]) (simp add: insert_at_def)

lemma upper_bound_le: "upper_bound lt x xs \<le> length xs"
  by (simp add: upper_bound_def length_takeWhile_le)

lemma lower_bound_le: "lower_bound lt k m \<le> length m"
  by (simp add: lower_bound_def length_takeWhile_le)

lemma multiset_insert_split:
  "\<exists>pre post. xs = pre @ post \<and> multiset_insert lt x xs = (length pre, pre @ x # post)"
  using insert_at_split[of "upper_bound lt x xs" xs x] upper_bound_le[of lt x xs]
  by (auto simp: multiset_insert_def Let_def)

lemma map_insert_cases:
  "(\<exists>pre kp y post. m = pre @ (kp, y) # post \<and> equivalent lt (fst e) kp \<and>
       map_insert lt e m = (length pre, False, m)) \<or>
   (\<exists>pre post. m = pre @ post \<and> (\<forall>g \<in> set m. \<not> equivalent lt (fst e) (fst g)) \<and>
       map_insert lt e m = (length pre, True, pre @ e # post))"
proof (cases "map_find lt (fst e) m")
  case None
  then have no: "\<forall>g \<in> set m. \<not> equivalent lt (fst e) (fst g)"
    by (simp add: map_find_def find_index_None_iff)
  from insert_at_split[of "lower_bound lt (fst e) m" m e] lower_bound_le[of lt "fst e" m]
  obtain pre post where "m = pre @ post" "lower_bound lt (fst e) m = length pre"
    "insert_at (lower_bound lt (fst e) m) e m = pre @ e # post" by blast
  with None no show ?thesis by (auto simp: map_insert_def Let_def)
next
  case (Some i)
  from find_index_Some_split[OF Some[unfolded map_find_def]]
  obtain pre g post where "m = pre @ g # post" "i = length pre" "equivalent lt (fst e) (fst g)"
    by blast
  with Some show ?thesis
    by (cases g) (auto simp: map_insert_def)
qed

lemma equivalent_KeyComparer [simp]: "equivalent KeyComparer a b \<longleftrightarrow> pointee a = pointee b"
  by (auto simp: equivalent_def KeyComparer_def)

lemma equivalent_ValueComparer [simp]: "equivalent ValueComparer a b \<longleftrightarrow> pointee a = pointee b"
  by (auto simp: equivalent_def ValueComparer_def)

lemma equivalent_element_less [simp]:
  "equivalent element_less a b \<longleftrightarrow> address (fst a) = address (fst b) \<and> address (snd a) = address (snd b)"
  by (auto simp: equivalent_def element_less_def)

lemma multiset_insert_Cons:
  "snd (multiset_insert lt x (y # ys)) =
     (if lt x y then x # y # ys else y # snd (multiset_insert lt x ys))"
  by (simp add: multiset_insert_def upper_bound_def insert_at_def Let_def)

lemma multiset_insert_Nil: "snd (multiset_insert lt x []) = [x]"
  by (simp add: multiset_insert_def upper_bound_def insert_at_def)

lemma mset_multiset_insert: "mset (snd (multiset_insert lt x xs)) = add_mset x (mset xs)"
  by (induction xs) (simp_all add: multiset_insert_Cons multiset_insert_Nil)

lemma set_multiset_insert: "set (snd (multiset_insert lt x xs)) = insert x (set xs)"
  by (induction xs) (auto simp add: multiset_insert_Cons multiset_insert_Nil)

lemma length_multiset_insert: "length (snd (multiset_insert lt x xs)) = Suc (length xs)"
  by (induction xs) (simp_all add: multiset_insert_Cons multiset_insert_Nil)

lemma multiset_insert_undo: "multiset_insert lt x xs = (i, ys) \<Longrightarrow> erase_at i ys = xs"
  using multiset_insert_split[of xs lt x] by auto

lemma try_emplace_undo:
  "try_emplace lt k m = (i, b, m1) \<Longrightarrow> i < length m1 \<and> (if b then erase_at i m1 else m1) = m"
  using map_insert_cases[of m lt "(k, [])"] by (auto simp: try_emplace_def)

lemma at_second_same: "i < length m \<Longrightarrow> at_second i (\<lambda>_. snd (m ! i)) m = m"
  by (simp add: at_second_def)

lemma at_second_twice:
  "i < length m \<Longrightarrow> at_second i f (at_second i g m) = at_second i (\<lambda>x. f (g x)) m"
  by (simp add: at_second_def)

lemma mset_butlast: "xs \<noteq> [] \<Longrightarrow> mset (butlast xs) = mset xs - {#last xs#}"
  by (cases xs rule: rev_cases) simp_all

lemma distinct_map_eq:
  "distinct (map f xs) \<Longrightarrow> x \<in> set xs \<Longrightarrow> y \<in> set xs \<Longrightarrow> f x = f y \<Longrightarrow> x = y"
  by (meson distinct_map inj_onD)

lemma map_find_member:
  assumes "distinct (map (\<lambda>g. pointee (fst g)) m)" "g \<in> set m"
    and "\<And>a b. equivalent lt a b \<longleftrightarrow> pointee a = pointee b"
    and "pointee k = pointee (fst g)"
  shows "\<exists>pre post. m = pre @ g # post \<and> map_find lt k m = Some (length pre)"
proof -
  from assms(2,3,4) have "find_index (\<lambda>e. equivalent lt k (fst e)) m \<noteq> None"
    by (auto simp: find_index_None_iff)
  then obtain i where i: "map_find lt k m = Some i" by (auto simp: map_find_def)
  from find_index_Some_split[OF i[unfolded map_find_def]] obtain pre g' post where
    sp: "m = pre @ g' # post" "i = length pre" "equivalent lt k (fst g')" by blast
  with assms(3,4) have "pointee (fst g') = pointee (fst g)" by simp
  moreover from sp(1) have "g' \<in> set m" by simp
  ultimately have "g' = g" using distinct_map_eq[OF assms(1) _ assms(2)] by blast
  with sp i show ?thesis by blast
qed

section \<open>The order of the value index\<close>

lemma ValueKeyComparer_trans:
  "ValueKeyComparer a b \<Longrightarrow> \<not> ValueKeyComparer c b \<Longrightarrow> \<not> ValueKeyComparer c a"
  by (auto simp: ValueKeyComparer_def split: if_splits)

lemma ValueKeyComparer_asym: "ValueKeyComparer a b \<Longrightarrow> \<not> ValueKeyComparer b a"
  by (auto simp: ValueKeyComparer_def split: if_splits)

lemma sorted_multiset_insert:
  "sorted_wrt (\<lambda>a b. \<not> ValueKeyComparer b a) xs \<Longrightarrow>
   sorted_wrt (\<lambda>a b. \<not> ValueKeyComparer b a) (snd (multiset_insert ValueKeyComparer x xs))"
proof (induction xs)
  case Nil
  then show ?case by (simp add: multiset_insert_Nil)
next
  case (Cons y ys)
  then show ?case
    by (auto simp: multiset_insert_Cons set_multiset_insert dest: ValueKeyComparer_trans ValueKeyComparer_asym)
qed

lemma value_ordered_sorted:
  "value_ordered q \<Longrightarrow> sorted (map (\<lambda>e. pointee (snd e)) (sorted_by_value q))"
proof -
  assume "value_ordered q"
  then have "sorted_wrt (\<lambda>a b. \<not> ValueKeyComparer b a) (sorted_by_value q)"
    by (simp add: value_ordered_def)
  then have "sorted_wrt (\<lambda>x y. pointee (snd x) \<le> pointee (snd y)) (sorted_by_value q)"
  proof (rule sorted_wrt_mono_rel[rotated])
    fix a b :: "('a, 'b) element"
    assume "\<not> ValueKeyComparer b a"
    then show "pointee (snd a) \<le> pointee (snd b)"
      by (simp add: ValueKeyComparer_def not_less split: if_splits)
  qed
  then show ?thesis by (simp add: sorted_map)
qed

section \<open>The key index under insertion and removal\<close>

lemma key_index_elements_simps [simp]:
  "key_index_elements [] = []"
  "key_index_elements (g # m) = concat (map snd (snd g)) @ key_index_elements m"
  "key_index_elements (m @ m') = key_index_elements m @ key_index_elements m'"
  by (simp_all add: key_index_elements_def)

lemma value_level_insert:
  assumes "distinct (map (\<lambda>s. pointee (fst s)) vm)"
    and "\<forall>s \<in> set vm. value_group_ok kp s"
    and "pointee (fst e) = pointee kp"
    and "try_emplace ValueComparer (snd e) vm = (j, b, vm1)"
    and "multiset_insert element_less e (snd (vm1 ! j)) = (a, es)"
  shows "key_group_ok (kp, at_second j (\<lambda>_. es) vm1) \<and>
         mset (concat (map snd (at_second j (\<lambda>_. es) vm1))) = add_mset e (mset (concat (map snd vm)))"
proof -
  from map_insert_cases[of vm ValueComparer "(snd e, [])"]
  consider
    (found) pre vp y post where "vm = pre @ (vp, y) # post" "pointee (snd e) = pointee vp"
      "try_emplace ValueComparer (snd e) vm = (length pre, False, vm)"
  | (new) pre post where "vm = pre @ post" "\<forall>g \<in> set vm. pointee (snd e) \<noteq> pointee (fst g)"
      "try_emplace ValueComparer (snd e) vm = (length pre, True, pre @ (snd e, []) # post)"
    by (auto simp: try_emplace_def)
  then show ?thesis
  proof cases
    case found
    with assms(4) have eq: "j = length pre" "vm1 = vm" by simp_all
    from multiset_insert_split[of y element_less e] obtain epre epost where
      ins: "y = epre @ epost" "multiset_insert element_less e y = (length epre, epre @ e # epost)"
      by blast
    with assms(5) eq found(1) have es: "es = epre @ e # epost" by simp
    from assms(1,2,3) found(1,2) ins(1) show ?thesis
      unfolding eq es found(1)
      by (auto simp: key_group_ok_def value_group_ok_def)
  next
    case new
    with assms(4) have eq: "j = length pre" "vm1 = pre @ (snd e, []) # post" by simp_all
    with assms(5) have es: "es = [e]"
      by (simp add: multiset_insert_def upper_bound_def insert_at_def)
    from assms(1,2,3) new(1,2) show ?thesis
      unfolding eq es
      by (auto simp: key_group_ok_def value_group_ok_def)
  qed
qed

lemma key_level_insert:
  assumes ok: "key_index_ok m"
    and k: "try_emplace KeyComparer (fst e) m = (i, b, m1)"
    and v: "try_emplace ValueComparer (snd e) (snd (m1 ! i)) = (j, b', vm1)"
    and el: "multiset_insert element_less e (snd (vm1 ! j)) = (a, es)"
  shows "key_index_ok (at_second i (\<lambda>_. at_second j (\<lambda>_. es) vm1) m1) \<and>
         mset (key_index_elements (at_second i (\<lambda>_. at_second j (\<lambda>_. es) vm1) m1)) =
           add_mset e (mset (key_index_elements m)) \<and> i < length m1"
proof -
  from map_insert_cases[of m KeyComparer "(fst e, [])"]
  consider
    (found) pre kp vm post where "m = pre @ (kp, vm) # post" "pointee (fst e) = pointee kp"
      "try_emplace KeyComparer (fst e) m = (length pre, False, m)"
  | (new) pre post where "m = pre @ post" "\<forall>g \<in> set m. pointee (fst e) \<noteq> pointee (fst g)"
      "try_emplace KeyComparer (fst e) m = (length pre, True, pre @ (fst e, []) # post)"
    by (auto simp: try_emplace_def)
  then show ?thesis
  proof cases
    case found
    with k have eq: "i = length pre" "m1 = m" by simp_all
    from ok found(1) have g: "distinct (map (\<lambda>s. pointee (fst s)) vm)"
      "\<forall>s \<in> set vm. value_group_ok kp s"
      by (auto simp: key_index_ok_def key_group_ok_def)
    from v eq found(1) have v': "try_emplace ValueComparer (snd e) vm = (j, b', vm1)" by simp
    note vl = value_level_insert[OF g found(2) v' el]
    from ok vl show ?thesis
      unfolding eq found(1)
      by (auto simp: key_index_ok_def)
  next
    case new
    with k have eq: "i = length pre" "m1 = pre @ (fst e, []) # post" by simp_all
    from v eq have v': "try_emplace ValueComparer (snd e) [] = (j, b', vm1)" by simp
    have "key_group_ok (fst e, at_second j (\<lambda>_. es) vm1) \<and>
         mset (concat (map snd (at_second j (\<lambda>_. es) vm1))) = add_mset e (mset (concat (map snd [])))"
      using value_level_insert[where vm = "[]" and kp = "fst e", OF _ _ _ v' el] by simp
    with ok new(1,2) show ?thesis
      unfolding eq
      by (auto simp: key_index_ok_def)
  qed
qed

lemma subscript_insert_ok:
  assumes "key_index_ok m"
  shows "key_index_ok (subscript_insert e m) \<and>
         mset (key_index_elements (subscript_insert e m)) = add_mset e (mset (key_index_elements m))"
proof -
  obtain i b m1 where k: "try_emplace KeyComparer (fst e) m = (i, b, m1)"
    by (metis prod_cases3)
  obtain j b' vm1 where v: "try_emplace ValueComparer (snd e) (snd (m1 ! i)) = (j, b', vm1)"
    by (metis prod_cases3)
  obtain a es where el: "multiset_insert element_less e (snd (vm1 ! j)) = (a, es)"
    by (metis surj_pair)
  from key_level_insert[OF assms k v el] show ?thesis
    by (simp add: subscript_insert_def k v el)
qed

lemma subscript_insert_member: "e \<in> set (key_index_elements (subscript_insert e m))"
proof -
  obtain i b m1 where k: "try_emplace KeyComparer (fst e) m = (i, b, m1)"
    by (metis prod_cases3)
  obtain j b' vm1 where v: "try_emplace ValueComparer (snd e) (snd (m1 ! i)) = (j, b', vm1)"
    by (metis prod_cases3)
  obtain a es where el: "multiset_insert element_less e (snd (vm1 ! j)) = (a, es)"
    by (metis surj_pair)
  from el have e: "e \<in> set es" using set_multiset_insert[of element_less e "snd (vm1 ! j)"] by simp
  from try_emplace_undo[OF k] have i: "i < length m1" by simp
  from try_emplace_undo[OF v] have j: "j < length vm1" by simp
  have "(fst (vm1 ! j), es) \<in> set (at_second j (\<lambda>_. es) vm1)"
    using j by (simp add: at_second_def set_update_memI)
  moreover have "(fst (m1 ! i), at_second j (\<lambda>_. es) vm1) \<in> set (at_second i (\<lambda>_. at_second j (\<lambda>_. es) vm1) m1)"
    using i by (simp add: at_second_def set_update_memI)
  ultimately show ?thesis using e
    by (force simp add: subscript_insert_def k v el key_index_elements_def)
qed

lemma erase_from_key_index_ok:
  assumes ok: "key_index_ok m" and mem: "e \<in> set (key_index_elements m)"
  shows "\<exists>m'. erase_from_key_index e m = Some m' \<and> key_index_ok m' \<and>
           mset (key_index_elements m') = mset (key_index_elements m) - {#e#}"
proof -
  from mem obtain g s where gs: "g \<in> set m" "s \<in> set (snd g)" "e \<in> set (snd s)"
    by (auto simp: key_index_elements_def)
  obtain kp vm where g: "g = (kp, vm)" by (cases g)
  obtain vp es where s: "s = (vp, es)" by (cases s)
  from ok gs(1) have gok: "key_group_ok g" and dk: "distinct (map (\<lambda>g. pointee (fst g)) m)"
    by (auto simp: key_index_ok_def)
  from gok gs(2) g have sok: "value_group_ok kp s" and dv: "distinct (map (\<lambda>s. pointee (fst s)) vm)"
    by (auto simp: key_group_ok_def)
  from sok gs(3) s have pe: "pointee (fst e) = pointee kp" "pointee (snd e) = pointee vp"
    and all: "\<forall>e' \<in> set es. pointee (fst e') = pointee kp \<and> pointee (snd e') = pointee vp"
    by (auto simp: value_group_ok_def)
  from map_find_member[OF dk gs(1) equivalent_KeyComparer, of "fst e"] pe g
  obtain pre post where m: "m = pre @ (kp, vm) # post"
    and kit: "map_find KeyComparer (fst e) m = Some (length pre)" by auto
  from map_find_member[OF dv _ equivalent_ValueComparer, of s "snd e"] gs(2) pe g s
  obtain vpre vpost where vm: "vm = vpre @ (vp, es) # vpost"
    and vit: "map_find ValueComparer (snd e) vm = Some (length vpre)" by auto
  from gs(3) s have "find_index (equivalent element_less e) es \<noteq> None"
    by (auto simp: find_index_None_iff)
  then obtain ait where ait: "multiset_find element_less e es = Some ait"
    by (auto simp: multiset_find_def)
  from find_index_Some_split[OF ait[unfolded multiset_find_def]] obtain epre e' epost where
    es: "es = epre @ e' # epost" "ait = length epre" "equivalent element_less e e'" by blast
  with all pe have "e' = e"
    by (auto simp: prod_eq_iff shared_ptr.expand)
  with es have es': "es = epre @ e # epost" by simp
  have res: "erase_from_key_index e m =
      Some (if epre @ epost = []
            then (if vpre @ vpost = [] then pre @ post
                  else pre @ (kp, vpre @ vpost) # post)
            else pre @ (kp, vpre @ (vp, epre @ epost) # vpost) # post)"
    using kit vit ait es(2)
    by (simp add: erase_from_key_index_def m vm es' Let_def)
  from ok show ?thesis
    unfolding res
    by (auto simp: m vm es' key_index_ok_def key_group_ok_def value_group_ok_def)
qed

section \<open>The methods keep the two indices in agreement\<close>

lemma insert_try_None:
  "insert_try None k v q =
     Inr \<lparr>sorted_by_value = snd (multiset_insert ValueKeyComparer (k, v) (sorted_by_value q)),
          sorted_by_key = subscript_insert (k, v) (sorted_by_key q)\<rparr>"
proof -
  obtain i b m1 where k: "try_emplace KeyComparer k (sorted_by_key q) = (i, b, m1)"
    by (metis prod_cases3)
  obtain j b' vm1 where v: "try_emplace ValueComparer v (snd (m1 ! i)) = (j, b', vm1)"
    by (metis prod_cases3)
  obtain a es where el: "multiset_insert element_less (k, v) (snd (vm1 ! j)) = (a, es)"
    by (metis surj_pair)
  have i: "i < length m1"
    using map_insert_cases[of "sorted_by_key q" KeyComparer "(k, [])"] k
    by (auto simp: try_emplace_def)
  have j: "j < length vm1"
    using map_insert_cases[of "snd (m1 ! i)" ValueComparer "(v, [])"] v
    by (auto simp: try_emplace_def)
  show ?thesis
    using i j
    by (simp add: insert_try_def subscript_insert_def k v el Let_def at_second_twice
             split: prod.splits)
qed

lemma insert_pq_None:
  "insert_pq None this key val w =
     Returned
       (set_queue this
          \<lparr>sorted_by_value =
             snd (multiset_insert ValueKeyComparer
                    (Ptr (next_addr w) key, Ptr (Suc (next_addr w)) val)
                    (sorted_by_value (queues w this))),
           sorted_by_key =
             subscript_insert (Ptr (next_addr w) key, Ptr (Suc (next_addr w)) val)
               (sorted_by_key (queues w this))\<rparr>
          (w\<lparr>next_addr := Suc (Suc (next_addr w))\<rparr>))"
  by (simp add: insert_pq_def make_shared_def insert_try_None)

lemma insert_try_fault:
  assumes "f \<in> {Insert_by_value, Emplace_key, Emplace_value, Insert_element}"
  shows "insert_try (Some f) k v q = Inl q"
proof -
  obtain it1 s1 where s: "multiset_insert ValueKeyComparer (k, v) (sorted_by_value q) = (it1, s1)"
    by (metis surj_pair)
  obtain it2 al2 m2 where k: "try_emplace KeyComparer k (sorted_by_key q) = (it2, al2, m2)"
    by (metis prod_cases3)
  obtain it3 al3 vm where v: "try_emplace ValueComparer v (snd (m2 ! it2)) = (it3, al3, vm)"
    by (metis prod_cases3)
  note u1 = multiset_insert_undo[OF s]
  note u2 = try_emplace_undo[OF k]
  note u3 = try_emplace_undo[OF v]
  from u2 u3 have undo: "at_second it2 (\<lambda>x. if al3 then erase_at it3 vm else vm) m2 = m2"
    using at_second_same[of it2 m2] by (auto split: if_splits)
  from assms consider "f = Insert_by_value" | "f = Emplace_key" | "f = Emplace_value"
    | "f = Insert_element" by auto
  then show ?thesis
  proof cases
    case 1
    then show ?thesis by (simp add: insert_try_def insert_catch_def)
  next
    case 2
    then show ?thesis using u1 by (simp add: insert_try_def insert_catch_def s)
  next
    case 3
    then show ?thesis using u1 u2
      by (simp add: insert_try_def insert_catch_def s k split: if_splits)
  next
    case 4
    have "(if al3 then at_second it2 (erase_at it3) (at_second it2 (\<lambda>_. vm) m2)
           else at_second it2 (\<lambda>_. vm) m2) = m2"
      using undo u2 by (auto simp: at_second_twice split: if_splits)
    then show ?thesis using 4 u1 u2
      by (simp add: insert_try_def insert_catch_def s k v Let_def split: if_splits)
  qed
qed

lemma insert_pq_consistent:
  assumes "consistent (queues w this)" "value_ordered (queues w this)"
  shows "\<exists>w'. insert_pq None this key val w = Returned w' \<and>
           consistent (queues w' this) \<and> value_ordered (queues w' this) \<and>
           mset (key_value_pairs (queues w' this)) =
             add_mset (key, val) (mset (key_value_pairs (queues w this)))"
  using assms subscript_insert_ok[of "sorted_by_key (queues w this)"]
  by (simp add: insert_pq_None set_queue_def consistent_def value_ordered_def
        key_value_pairs_def mset_multiset_insert sorted_multiset_insert)

lemma default_consistent: "consistent PriorityQueue_default" "value_ordered PriorityQueue_default"
  by (simp_all add: consistent_def value_ordered_def PriorityQueue_default_def key_index_ok_def)

lemma insert_all_consistent:
  assumes "consistent (queues w this)" "value_ordered (queues w this)"
  shows "\<exists>w'. insert_all this kvs w = Returned w' \<and>
           consistent (queues w' this) \<and> value_ordered (queues w' this) \<and>
           mset (key_value_pairs (queues w' this)) =
             mset kvs + mset (key_value_pairs (queues w this))"
  using assms
proof (induction kvs arbitrary: w)
  case Nil
  then show ?case by simp
next
  case (Cons kv kvs)
  from insert_pq_consistent[OF Cons.prems, of "fst kv" "snd kv"] obtain w1 where
    w1: "insert_pq None this (fst kv) (snd kv) w = Returned w1" "consistent (queues w1 this)"
     "value_ordered (queues w1 this)"
     "mset (key_value_pairs (queues w1 this)) = add_mset kv (mset (key_value_pairs (queues w this)))"
    by auto
  from Cons.IH[OF w1(2,3)] w1(1,4) show ?case
    by (auto simp: and_then_def)
qed

lemma deleteMin_consistent:
  assumes "consistent q" "\<not> empty_pq q"
  shows "\<exists>q'. deleteMin q = Returned q' \<and> consistent q' \<and>
           sorted_by_value q' = tl (sorted_by_value q)"
proof -
  from assms have ne: "sorted_by_value q \<noteq> []" by (simp add: empty_pq_def)
  then have "hd (sorted_by_value q) \<in># mset (sorted_by_value q)" by simp
  with assms(1) have mem: "hd (sorted_by_value q) \<in> set (key_index_elements (sorted_by_key q))"
    by (metis consistent_def set_mset_mset)
  from assms(1) have ok: "key_index_ok (sorted_by_key q)" by (simp add: consistent_def)
  from erase_from_key_index_ok[OF ok mem] obtain m' where
    m': "erase_from_key_index (hd (sorted_by_value q)) (sorted_by_key q) = Some m'"
    "key_index_ok m'"
    "mset (key_index_elements m') =
       mset (key_index_elements (sorted_by_key q)) - {#hd (sorted_by_value q)#}" by blast
  from ne have "mset (tl (sorted_by_value q)) = mset (sorted_by_value q) - {#hd (sorted_by_value q)#}"
    by (cases "sorted_by_value q") simp_all
  with m' assms ne show ?thesis
    by (simp add: deleteMin_def consistent_def erase_at_def drop_Suc)
qed

lemma deleteMax_consistent:
  assumes "consistent q" "\<not> empty_pq q"
  shows "\<exists>q'. deleteMax q = Returned q' \<and> consistent q' \<and>
           sorted_by_value q' = butlast (sorted_by_value q)"
proof -
  from assms have ne: "sorted_by_value q \<noteq> []" by (simp add: empty_pq_def)
  then have "last (sorted_by_value q) \<in># mset (sorted_by_value q)" by simp
  with assms(1) have mem: "last (sorted_by_value q) \<in> set (key_index_elements (sorted_by_key q))"
    by (metis consistent_def set_mset_mset)
  from assms(1) have ok: "key_index_ok (sorted_by_key q)" by (simp add: consistent_def)
  from erase_from_key_index_ok[OF ok mem] obtain m' where
    m': "erase_from_key_index (last (sorted_by_value q)) (sorted_by_key q) = Some m'"
    "key_index_ok m'"
    "mset (key_index_elements m') =
       mset (key_index_elements (sorted_by_key q)) - {#last (sorted_by_value q)#}" by blast
  from ne have "mset (butlast (sorted_by_value q)) = mset (sorted_by_value q) - {#last (sorted_by_value q)#}"
    by (rule mset_butlast)
  moreover have "erase_at (length (sorted_by_value q) - 1) (sorted_by_value q) = butlast (sorted_by_value q)"
    using ne by (simp add: erase_at_def butlast_conv_take)
  ultimately show ?thesis using m' assms ne 
    by (simp add: deleteMax_def consistent_def)
qed

lemma values_of_pairs:
  "map (\<lambda>e. pointee (snd e)) (sorted_by_value q) = map snd (key_value_pairs q)"
  by (simp add: key_value_pairs_def)

lemma drainMin_consistent:
  "consistent q \<Longrightarrow> drainMin q = Some (map (\<lambda>e. pointee (snd e)) (sorted_by_value q))"
proof (induction "length (sorted_by_value q)" arbitrary: q)
  case 0
  then show ?case by (subst drainMin.simps) (simp add: empty_pq_def)
next
  case (Suc n)
  then have ne: "\<not> empty_pq q" by (auto simp: empty_pq_def)
  from deleteMin_consistent[OF Suc.prems ne] obtain q' where
    q': "deleteMin q = Returned q'" "consistent q'" "sorted_by_value q' = tl (sorted_by_value q)"
    by blast
  with Suc.hyps(2) have "n = length (sorted_by_value q')" by simp
  moreover have "map (\<lambda>e. pointee (snd e)) (sorted_by_value q) =
        pointee (snd (hd (sorted_by_value q))) # map (\<lambda>e. pointee (snd e)) (tl (sorted_by_value q))"
    using ne by (cases "sorted_by_value q") (simp_all add: empty_pq_def)
  ultimately show ?case using Suc.hyps(1)[OF _ q'(2)] q' ne
    by (subst drainMin.simps) (simp add: minValue_def del: drainMin.simps)
qed

lemma drainMax_consistent:
  "consistent q \<Longrightarrow> drainMax q = Some (rev (map (\<lambda>e. pointee (snd e)) (sorted_by_value q)))"
proof (induction "length (sorted_by_value q)" arbitrary: q)
  case 0
  then show ?case by (subst drainMax.simps) (simp add: empty_pq_def)
next
  case (Suc n)
  then have ne: "\<not> empty_pq q" by (auto simp: empty_pq_def)
  then have ne': "sorted_by_value q \<noteq> []" by (simp add: empty_pq_def)
  from deleteMax_consistent[OF Suc.prems ne] obtain q' where
    q': "deleteMax q = Returned q'" "consistent q'" "sorted_by_value q' = butlast (sorted_by_value q)"
    by blast
  with Suc.hyps(2) have "n = length (sorted_by_value q')" by simp
  have "rev (map (\<lambda>e. pointee (snd e)) (sorted_by_value q)) =
        pointee (snd (last (sorted_by_value q))) # rev (map (\<lambda>e. pointee (snd e)) (butlast (sorted_by_value q)))"
    using ne' by (cases "sorted_by_value q" rule: rev_cases) simp_all
  with Suc.hyps(1)[OF \<open>n = length (sorted_by_value q')\<close> q'(2)] q' ne show ?case
    by (subst drainMax.simps) (simp add: maxValue_def del: drainMax.simps)
qed

lemma merge_transfer_length:
  "merge_transfer f e s = Inr s' \<Longrightarrow> length (fst s') = Suc (length (fst s))"
  by (auto simp: merge_transfer_def Let_def length_multiset_insert split: prod.splits if_splits)

lemma merge_transfer_None: "\<exists>s'. merge_transfer None e s = Inr s'"
  by (cases s rule: prod_cases4) (auto simp: merge_transfer_def Let_def split: prod.splits)

lemma merge_loop_length:
  "merge_loop f i es s = Inr s' \<Longrightarrow> length (fst s') = length (fst s) + length es"
proof (induction es arbitrary: i s)
  case Nil
  then show ?case by simp
next
  case (Cons e es)
  then show ?case
    by (auto split: sum.splits dest!: merge_transfer_length)
qed

lemma merge_loop_None: "\<exists>s'. merge_loop None i es s = Inr s'"
proof (induction es arbitrary: i s)
  case Nil
  show ?case by (rule exI[of _ s]) simp
next
  case (Cons e es)
  from merge_transfer_None[of e s] obtain s1 where "merge_transfer None e s = Inr s1" by blast
  with Cons.IH[of "Suc i" s1] show ?case by simp
qed

lemma example_world_built:
  "and_then (insert_pq None 0 1 ''a'' initial_world)
     (\<lambda>w. and_then (insert_pq None 1 1 ''a'' w) (insert_pq None 1 2 ''b'')) =
   Returned example_world"
  by (simp add: example_world_def initial_world_def and_then_def method_defs container_defs
        subscript_insert_def Let_def eval_nat_numeral)


section \<open>The claims\<close>

text \<open>
  C1. Claim: in every reachable state, before and after every public operation, the
  value index has as many elements as the key index, flattened, and the elements of the
  two correspond one to one. The code breaks it. When \<^verbatim>\<open>merge\<close> has put the first
  element of the other queue into \<^verbatim>\<open>sorted_by_value\<close> (line 310) and the next call,
  the insertion into the rollback multiset (line 311), throws, the \<^verbatim>\<open>catch\<close> block
  finds both rollback containers empty and undoes nothing: the queue, empty before the
  call, is left with one element in the value index and none in the key index.
\<close>

theorem merge_failure_breaks_index_agreement:
  "map_outcome
     (\<lambda>w. (length (sorted_by_value (queues w 0)),
           length (key_index_elements (sorted_by_key (queues w 0)))))
     (and_then (insert_pq None 1 (1::int) ''a'' initial_world)
        (merge (Some (0, Merge_rollback_by_value)) 0 1)) =
   Threw PriorityQueueEmptyException (1, 0)"
  by (simp add: initial_world_def and_then_def method_defs container_defs subscript_insert_def
        merge_def merge_transfer_def merge_catch_def key_index_elements_def Let_def)

text \<open>
  C2, as amended. Claim: if any step of \<^verbatim>\<open>insert\<close> fails, every partial update is
  undone, \<^verbatim>\<open>PriorityQueueInsertionException\<close> is thrown and the queue is as before;
  on success the new element is in both indices. What holds, for every world, queue, key
  and value: a failure of one of the four container insertions of the \<^verbatim>\<open>try\<close> block
  throws \<^verbatim>\<open>PriorityQueueInsertionException\<close> and leaves every queue as it was; a
  failure of one of the two \<^verbatim>\<open>make_shared\<close> calls, which stand before the
  \<^verbatim>\<open>try\<close> block, lets \<^verbatim>\<open>std::bad_alloc\<close> through untranslated, every queue again
  as it was; and a call in which nothing fails returns, with the new element in the value
  index and in the key index and the size one larger.
\<close>

theorem insert_strong_guarantee:
  "(f \<in> {Insert_by_value, Emplace_key, Emplace_value, Insert_element} \<longrightarrow>
      (\<exists>w'. insert_pq (Some f) this key val w = Threw PriorityQueueInsertionException w' \<and>
            queues w' = queues w)) \<and>
   (f \<in> {Alloc_key, Alloc_value} \<longrightarrow>
      (\<exists>w'. insert_pq (Some f) this key val w = Threw bad_alloc w' \<and> queues w' = queues w)) \<and>
   (\<exists>w'. insert_pq None this key val w = Returned w' \<and>
         (Ptr (next_addr w) key, Ptr (Suc (next_addr w)) val)
           \<in> set (sorted_by_value (queues w' this)) \<inter>
             set (key_index_elements (sorted_by_key (queues w' this))) \<and>
         size_pq (queues w' this) = Suc (size_pq (queues w this)))"
proof (intro conjI impI)
  assume a: "f \<in> {Insert_by_value, Emplace_key, Emplace_value, Insert_element}"
  then have "f \<noteq> Alloc_key" "f \<noteq> Alloc_value" by auto
  then show "\<exists>w'. insert_pq (Some f) this key val w = Threw PriorityQueueInsertionException w' \<and>
            queues w' = queues w"
    by (simp add: insert_pq_def make_shared_def set_queue_def insert_try_fault[OF a])
next
  assume "f \<in> {Alloc_key, Alloc_value}"
  then show "\<exists>w'. insert_pq (Some f) this key val w = Threw bad_alloc w' \<and> queues w' = queues w"
    by (auto simp: insert_pq_def make_shared_def)
next
  show "\<exists>w'. insert_pq None this key val w = Returned w' \<and>
         (Ptr (next_addr w) key, Ptr (Suc (next_addr w)) val)
           \<in> set (sorted_by_value (queues w' this)) \<inter>
             set (key_index_elements (sorted_by_key (queues w' this))) \<and>
         size_pq (queues w' this) = Suc (size_pq (queues w this))"
    by (simp add: insert_pq_None set_queue_def set_multiset_insert subscript_insert_member
          size_pq_def length_multiset_insert)
qed

theorem insert_strong_guarantee_witness:
  "(\<exists>w'. insert_pq (Some Insert_element) 0 (1::int) ''a'' initial_world =
            Threw PriorityQueueInsertionException w' \<and> queues w' = queues initial_world) \<and>
   (\<exists>w'. insert_pq (Some Alloc_value) 0 (1::int) ''a'' initial_world = Threw bad_alloc w' \<and>
            queues w' = queues initial_world)"
  using insert_strong_guarantee[of Insert_element 0 "1::int" "''a''" initial_world]
    insert_strong_guarantee[of Alloc_value 0 "1::int" "''a''" initial_world]
  by simp

text \<open>
  The claim as it stands fails where the allocation of the key object fails: the
  exception thrown is \<^verbatim>\<open>std::bad_alloc\<close>, not the translated one.
\<close>

theorem insert_bad_alloc_counterexample:
  "insert_pq (Some Alloc_key) 0 (1::int) ''a'' initial_world = Threw bad_alloc initial_world \<and>
   bad_alloc \<noteq> PriorityQueueInsertionException"
  by (simp add: insert_pq_def)

text \<open>
  C3. Claim: if a transfer step of \<^verbatim>\<open>this.merge(other)\<close> fails, \<^verbatim>\<open>this\<close> is
  restored to its state before the call and \<^verbatim>\<open>other\<close> keeps its contents. The code
  keeps \<^verbatim>\<open>other\<close> and does not restore \<^verbatim>\<open>this\<close>: with (2, "b") in queue 0 and
  (1, "a") in queue 1, a failure of line 311 for the first element leaves (1, "a") in the
  value index of queue 0, which held (2, "b") alone before the call.
\<close>

theorem merge_failure_not_rolled_back:
  "map_outcome
     (\<lambda>w. (key_value_pairs (queues w 0), key_value_pairs (queues w 1)))
     (and_then (insert_pq None 0 (2::int) ''b'' initial_world) (insert_pq None 1 1 ''a'')) =
   Returned ([(2, ''b'')], [(1, ''a'')]) \<and>
   map_outcome
     (\<lambda>w. (key_value_pairs (queues w 0), key_value_pairs (queues w 1)))
     (and_then
        (and_then (insert_pq None 0 (2::int) ''b'' initial_world) (insert_pq None 1 1 ''a''))
        (merge (Some (0, Merge_rollback_by_value)) 0 1)) =
   Threw PriorityQueueEmptyException ([(1, ''a''), (2, ''b'')], [(1, ''a'')])"
  by (simp add: initial_world_def and_then_def method_defs container_defs subscript_insert_def
        merge_def merge_transfer_def merge_catch_def key_value_pairs_def Let_def)


text \<open>
  C5. Claim: two queues are equal exactly when their value indices hold the same
  sequence of (value, key) pairs, and the relational operators compare these sequences.
  The code compares the multisets of pairs of shared pointers, and two shared pointers
  are equal when they hold the same address: two queues into each of which (1, "a") was
  inserted have the same sequence of (value, key) pairs and are not equal.
\<close>

theorem operator_eq_compares_addresses:
  "map_outcome
     (\<lambda>w. (value_key_sequence (queues w 0), value_key_sequence (queues w 1),
           operator_eq (queues w 0) (queues w 1), operator_ne (queues w 0) (queues w 1)))
     (and_then (insert_pq None 0 (1::int) ''a'' initial_world) (insert_pq None 1 1 ''a'')) =
   Returned ([(''a'', 1)], [(''a'', 1)], False, True)"
  by (simp add: initial_world_def and_then_def method_defs container_defs subscript_insert_def
        value_key_sequence_def operator_eq_def operator_ne_def Let_def)

text \<open>
  C6. Claim: from an empty queue, after \<^verbatim>\<open>insert(1, "a")\<close>, \<^verbatim>\<open>insert(2, "b")\<close> and
  \<^verbatim>\<open>insert(1, "c")\<close> the size is 3, \<^verbatim>\<open>minKey\<close> is 1, \<^verbatim>\<open>minValue\<close> is "a",
  \<^verbatim>\<open>maxKey\<close> is 1 and \<^verbatim>\<open>maxValue\<close> is "c"; after one \<^verbatim>\<open>deleteMin\<close> the size is 2
  and \<^verbatim>\<open>minValue\<close> is "b". Proved in any world, for any queue of it that is empty.
\<close>

theorem insert_accessors_deleteMin_scenario:
  assumes "queues w this = PriorityQueue_default"
  shows
    "\<exists>w3. and_then (insert_pq None this (1::int) ''a'' w)
            (\<lambda>w1. and_then (insert_pq None this 2 ''b'' w1) (insert_pq None this 1 ''c'')) =
          Returned w3 \<and>
        size_pq (queues w3 this) = 3 \<and>
        minKey (queues w3 this) = Inr 1 \<and> minValue (queues w3 this) = Inr ''a'' \<and>
        maxKey (queues w3 this) = Inr 1 \<and> maxValue (queues w3 this) = Inr ''c'' \<and>
        (\<exists>q'. deleteMin (queues w3 this) = Returned q' \<and>
              size_pq q' = 2 \<and> minValue q' = Inr ''b'')"
  using assms by (simp add: and_then_def method_defs container_defs Let_def)

theorem insert_accessors_deleteMin_scenario_witness:
  "queues (initial_world :: (int, string) world) 0 = PriorityQueue_default \<and>
   (\<exists>w3. and_then (insert_pq None 0 (1::int) ''a'' initial_world)
            (\<lambda>w1. and_then (insert_pq None 0 2 ''b'' w1) (insert_pq None 0 1 ''c'')) =
          Returned w3 \<and>
        size_pq (queues w3 0) = 3 \<and>
        minKey (queues w3 0) = Inr 1 \<and> minValue (queues w3 0) = Inr ''a'' \<and>
        maxKey (queues w3 0) = Inr 1 \<and> maxValue (queues w3 0) = Inr ''c'' \<and>
        (\<exists>q'. deleteMin (queues w3 0) = Returned q' \<and>
              size_pq q' = 2 \<and> minValue q' = Inr ''b''))"
proof -
  have h: "queues (initial_world :: (int, string) world) 0 = PriorityQueue_default"
    by (simp add: initial_world_def)
  from insert_accessors_deleteMin_scenario[OF h] h show ?thesis by blast
qed

text \<open>
  C7. Claim: after any sequence of successful insertions, draining the queue with
  \<^verbatim>\<open>deleteMin\<close>, reading \<^verbatim>\<open>minValue\<close> before each deletion, sees the inserted
  values in non-decreasing order, and draining it with \<^verbatim>\<open>deleteMax\<close> sees them in
  non-increasing order. Proved for any list of pairs inserted into an empty queue of any
  world: the insertions return, both loops run to the end without a failed assertion,
  and each sees exactly the inserted values, in that order.
\<close>

theorem drain_in_value_order:
  assumes "queues w0 this = PriorityQueue_default"
  shows "\<exists>w. insert_all this kvs w0 = Returned w \<and>
           (\<exists>vs. drainMin (queues w this) = Some vs \<and> sorted vs \<and> mset vs = mset (map snd kvs)) \<and>
           (\<exists>vs. drainMax (queues w this) = Some vs \<and> sorted (rev vs) \<and> mset vs = mset (map snd kvs))"
proof -
  from insert_all_consistent[of w0 this kvs] assms default_consistent obtain w where
    w: "insert_all this kvs w0 = Returned w" "consistent (queues w this)" "value_ordered (queues w this)"
     "mset (key_value_pairs (queues w this)) = mset kvs + mset (key_value_pairs (queues w0 this))"
    by auto
  from w(4) assms have "mset (key_value_pairs (queues w this)) = mset kvs"
    by (simp add: key_value_pairs_def PriorityQueue_default_def)
  then have ms: "mset (map snd (key_value_pairs (queues w this))) = mset (map snd kvs)"
    by (metis mset_map)
  from w(1) drainMin_consistent[OF w(2)] drainMax_consistent[OF w(2)] value_ordered_sorted[OF w(3)] ms
  show ?thesis by (simp add: values_of_pairs)
qed

theorem drain_in_value_order_witness:
  "queues (initial_world :: (int, string) world) 0 = PriorityQueue_default \<and>
   (\<exists>w. insert_all 0 [(1::int, ''b''), (2, ''a''), (1, ''b'')] initial_world = Returned w \<and>
      (\<exists>vs. drainMin (queues w 0) = Some vs \<and> sorted vs \<and>
            mset vs = mset [''b'', ''a'', ''b'']) \<and>
      (\<exists>vs. drainMax (queues w 0) = Some vs \<and> sorted (rev vs) \<and>
            mset vs = mset [''b'', ''a'', ''b'']))"
proof -
  have h: "queues (initial_world :: (int, string) world) 0 = PriorityQueue_default"
    by (simp add: initial_world_def)
  from drain_in_value_order[OF h, of "[(1::int, ''b''), (2, ''a''), (1, ''b'')]"] h
  show ?thesis by simp
qed

text \<open>
  C8. Claim: for two distinct queues, after \<^verbatim>\<open>a.merge(b)\<close> has completed without
  error the size of \<open>a\<close> is the sum of the two sizes before and \<open>b\<close> is empty; a merge
  of a queue with itself changes nothing. Proved: the self-merge returns the world as it
  was whatever the fault; for distinct queues the call in which nothing fails returns,
  and every call that returns leaves these sizes.
\<close>

theorem merge_postcondition:
  "merge f this this w = Returned w \<and>
   (this \<noteq> other \<longrightarrow>
      (\<exists>w'. merge None this other w = Returned w' \<and>
            size_pq (queues w' this) = size_pq (queues w this) + size_pq (queues w other) \<and>
            empty_pq (queues w' other)) \<and>
      (\<forall>w'. merge f this other w = Returned w' \<longrightarrow>
            size_pq (queues w' this) = size_pq (queues w this) + size_pq (queues w other) \<and>
            empty_pq (queues w' other)))"
proof -
  have ret: "size_pq (queues w' this) = size_pq (queues w this) + size_pq (queues w other) \<and>
        empty_pq (queues w' other)"
    if "this \<noteq> other" "merge g this other w = Returned w'" for g w'
  proof -
    from that obtain s where s: "merge_loop g 0 (sorted_by_value (queues w other))
        (sorted_by_value (queues w this), sorted_by_key (queues w this), [], []) = Inr s"
      by (auto simp: merge_def Let_def merge_catch_def split: sum.splits prod.splits if_splits)
    from merge_loop_length[OF s] that s show ?thesis
      by (auto simp: merge_def Let_def set_queue_def size_pq_def empty_pq_def split: prod.splits)
  qed
  have "\<exists>w'. merge None this other w = Returned w'" if "this \<noteq> other"
    using that merge_loop_None[of 0 "sorted_by_value (queues w other)"
        "(sorted_by_value (queues w this), sorted_by_key (queues w this), [], [])"]
    by (auto simp: merge_def Let_def split: prod.splits)
  with ret show ?thesis by (auto simp: merge_def)
qed

theorem merge_postcondition_witness:
  "(0::nat) \<noteq> 1 \<and>
   merge None 0 0 example_world = Returned example_world \<and>
   (\<exists>w'. merge None 0 1 example_world = Returned w' \<and>
         size_pq (queues w' 0) =
           size_pq (queues example_world 0) + size_pq (queues example_world 1) \<and>
         empty_pq (queues w' 1))"
  using merge_postcondition[of None 0 example_world 1] by simp




text \<open>
  C10. Claim: \<^verbatim>\<open>deleteMin\<close> and \<^verbatim>\<open>deleteMax\<close> on an empty queue raise nothing and
  leave the queue empty, where the four accessors throw. Proved: on a queue for which
  \<^verbatim>\<open>empty()\<close> holds both return the queue unchanged, its size is 0, and each of
  \<^verbatim>\<open>minValue\<close>, \<^verbatim>\<open>maxValue\<close>, \<^verbatim>\<open>minKey\<close> and \<^verbatim>\<open>maxKey\<close> throws
  \<^verbatim>\<open>PriorityQueueEmptyException\<close>.
\<close>

theorem delete_on_empty_is_noop:
  assumes "empty_pq q"
  shows "deleteMin q = Returned q \<and> deleteMax q = Returned q \<and> size_pq q = 0 \<and>
         minValue q = Inl PriorityQueueEmptyException \<and>
         maxValue q = Inl PriorityQueueEmptyException \<and>
         minKey q = Inl PriorityQueueEmptyException \<and>
         maxKey q = Inl PriorityQueueEmptyException"
  using assms
  by (simp add: deleteMin_def deleteMax_def size_pq_def empty_pq_def minValue_def maxValue_def
        minKey_def maxKey_def)

theorem delete_on_empty_is_noop_witness:
  "empty_pq (PriorityQueue_default :: (int, string) PriorityQueue) \<and>
   deleteMin (PriorityQueue_default :: (int, string) PriorityQueue) =
     Returned PriorityQueue_default \<and>
   deleteMax (PriorityQueue_default :: (int, string) PriorityQueue) =
     Returned PriorityQueue_default \<and>
   size_pq (PriorityQueue_default :: (int, string) PriorityQueue) = 0"
proof -
  have h: "empty_pq (PriorityQueue_default :: (int, string) PriorityQueue)"
    by (simp add: empty_pq_def PriorityQueue_default_def)
  from delete_on_empty_is_noop[OF h] h show ?thesis by simp
qed

end
